theory Spec2Isabelle
  imports
    Main
    "HOL-Library.Char_ord"
    "HOL-Library.List_Lexorder"
    "HOL-Library.Product_Lexorder"
begin

section \<open>Data model\<close>

text \<open>
  A stored document of the \<^verbatim>\<open>trackSchema\<close>: ten string-valued paths, \<^verbatim>\<open>genres\<close>
  being a list of strings. The path \<^verbatim>\<open>id\<close> is written \<open>id_of\<close> here.
\<close>

record track =
  id_of :: string
  title :: string
  artist :: string
  album :: string
  genres :: "string list"
  coverImage :: string
  audioFile :: string
  slug :: string
  createdAt :: string
  updatedAt :: string

text \<open>
  \<^verbatim>\<open>Partial<Track>\<close>: every key may be absent (\<open>None\<close>).
\<close>

record track_updates =
  upd_id :: "string option"
  upd_title :: "string option"
  upd_artist :: "string option"
  upd_album :: "string option"
  upd_genres :: "string list option"
  upd_coverImage :: "string option"
  upd_audioFile :: "string option"
  upd_slug :: "string option"
  upd_createdAt :: "string option"
  upd_updatedAt :: "string option"

text \<open>
  \<^verbatim>\<open>Omit<Track, 'id' | 'createdAt' | 'updatedAt'>\<close>, the argument of \<^verbatim>\<open>createTrack\<close>. The paths
  that the schema gives a default may be absent.
\<close>

record new_track =
  new_title :: string
  new_artist :: string
  new_album :: "string option"
  new_genres :: "string list option"
  new_coverImage :: "string option"
  new_audioFile :: "string option"
  new_slug :: string

text \<open>
  The two stores and the one environment variable the repository functions read. The
  Track Store is the collection in insertion order; the Media Store is the set of public
  ids that hold an uploaded object. Both stores answer every request: a connection that
  fails is not part of this model, the errors the stores raise by themselves are.
\<close>

record world =
  tracks :: "track list"
  media :: "string set"
  CLOUDINARY_FOLDER :: "string option"

text \<open>
  One reading of the system clock: \<^verbatim>\<open>Date.now()\<close> in milliseconds and
  \<^verbatim>\<open>new Date().toISOString()\<close>. A repository call is given the reading of the instant at
  which it runs; the calls it makes in turn read the same clock.
\<close>

record clock =
  now_ms :: nat
  now_iso :: string

datatype error = ValidationError | DuplicateKey | SyntaxError | BadValue

record BatchDeleteResponse =
  success :: "string list"
  failed :: "string list"


section \<open>The collection operations used by the repository\<close>

text \<open>
  \<^verbatim>\<open>TrackModel.findOne(cond)\<close>: the first document that satisfies the condition, or null.
\<close>

definition findOne :: "(track \<Rightarrow> bool) \<Rightarrow> track list \<Rightarrow> track option" where
  "findOne p docs = List.find p docs"

text \<open>
  \<^verbatim>\<open>TrackModel.findOneAndDelete(cond)\<close>: removes the first document that satisfies the
  condition and returns it, or returns null and removes nothing.
\<close>

fun findOneAndDelete :: "(track \<Rightarrow> bool) \<Rightarrow> track list \<Rightarrow> track option \<times> track list" where
  "findOneAndDelete p [] = (None, [])"
| "findOneAndDelete p (d # ds) =
     (if p d then (Some d, ds)
      else (case findOneAndDelete p ds of (r, ds') \<Rightarrow> (r, d # ds')))"

fun replace_first :: "(track \<Rightarrow> bool) \<Rightarrow> track \<Rightarrow> track list \<Rightarrow> track list" where
  "replace_first p d' [] = []"
| "replace_first p d' (d # ds) = (if p d then d' # ds else d # replace_first p d' ds)"

text \<open>
  \<^verbatim>\<open>TrackModel.findOneAndUpdate(cond, update, { new: true })\<close>: the first document that
  satisfies the condition is replaced by its updated version, which is returned; null
  when there is none (no upsert). The unique indexes on \<^verbatim>\<open>id\<close> and \<^verbatim>\<open>slug\<close>
  reject an update that moves either key onto the key of another document.
\<close>

definition findOneAndUpdate ::
  "(track \<Rightarrow> bool) \<Rightarrow> (track \<Rightarrow> track) \<Rightarrow> track list \<Rightarrow> error + (track option \<times> track list)" where
  "findOneAndUpdate p f docs =
     (case List.find p docs of
        None \<Rightarrow> Inr (None, docs)
      | Some d \<Rightarrow>
          (let d' = f d in
           if (id_of d' \<noteq> id_of d \<and> id_of d' \<in> id_of ` set docs)
              \<or> (slug d' \<noteq> slug d \<and> slug d' \<in> slug ` set docs)
           then Inl DuplicateKey
           else Inr (Some d', replace_first p d' docs)))"

text \<open>
  \<^verbatim>\<open>TrackModel.create(doc)\<close>: the schema's \<^verbatim>\<open>required\<close> validator refuses an empty
  string; the unique indexes refuse a second document with the same \<^verbatim>\<open>id\<close> or
  \<^verbatim>\<open>slug\<close>; otherwise the document is appended.
\<close>

definition required_ok :: "track \<Rightarrow> bool" where
  "required_ok d \<longleftrightarrow>
     id_of d \<noteq> [] \<and> title d \<noteq> [] \<and> artist d \<noteq> [] \<and> slug d \<noteq> []
     \<and> createdAt d \<noteq> [] \<and> updatedAt d \<noteq> []"

definition create :: "track \<Rightarrow> track list \<Rightarrow> error + (track \<times> track list)" where
  "create doc docs =
     (if \<not> required_ok doc then Inl ValidationError
      else if id_of doc \<in> id_of ` set docs \<or> slug doc \<in> slug ` set docs then Inl DuplicateKey
      else Inr (doc, docs @ [doc]))"

text \<open>
  \<^verbatim>\<open>cloudinary.uploader.destroy(publicId)\<close>: the object under that public id is gone
  afterwards; destroying an absent object is not an error.
\<close>

definition destroy :: "string \<Rightarrow> string set \<Rightarrow> string set" where
  "destroy publicId objs = objs - {publicId}"


section \<open>The repository functions\<close>

definition getTrackBySlug :: "world \<Rightarrow> string \<Rightarrow> track option" where
  "getTrackBySlug w s = findOne (\<lambda>t. slug t = s) (tracks w)"

definition getTrackById :: "world \<Rightarrow> string \<Rightarrow> track option" where
  "getTrackById w i = findOne (\<lambda>t. id_of t = i) (tracks w)"

text \<open>
  The update document \<^verbatim>\<open>{ ...updates, updatedAt: new Date().toISOString() }\<close> applied to
  a stored document: every key that is present is set, \<^verbatim>\<open>updatedAt\<close> always.
\<close>

definition set_path :: "'a option \<Rightarrow> 'a \<Rightarrow> 'a" where
  "set_path v old = (case v of None \<Rightarrow> old | Some x \<Rightarrow> x)"

definition apply_updates :: "track_updates \<Rightarrow> track \<Rightarrow> track" where
  "apply_updates u t =
     \<lparr> id_of = set_path (upd_id u) (id_of t),
       title = set_path (upd_title u) (title t),
       artist = set_path (upd_artist u) (artist t),
       album = set_path (upd_album u) (album t),
       genres = set_path (upd_genres u) (genres t),
       coverImage = set_path (upd_coverImage u) (coverImage t),
       audioFile = set_path (upd_audioFile u) (audioFile t),
       slug = set_path (upd_slug u) (slug t),
       createdAt = set_path (upd_createdAt u) (createdAt t),
       updatedAt = set_path (upd_updatedAt u) (updatedAt t) \<rparr>"

definition updateTrack ::
  "clock \<Rightarrow> world \<Rightarrow> string \<Rightarrow> track_updates \<Rightarrow> (error + track option) \<times> world" where
  "updateTrack clk w i updates =
     (case findOneAndUpdate (\<lambda>t. id_of t = i)
             (apply_updates (updates\<lparr>upd_updatedAt := Some (now_iso clk)\<rparr>)) (tracks w) of
        Inl e \<Rightarrow> (Inl e, w)
      | Inr (updated, docs) \<Rightarrow> (Inr updated, w\<lparr>tracks := docs\<rparr>))"

definition no_updates :: track_updates where
  "no_updates =
     \<lparr> upd_id = None, upd_title = None, upd_artist = None, upd_album = None,
       upd_genres = None, upd_coverImage = None, upd_audioFile = None, upd_slug = None,
       upd_createdAt = None, upd_updatedAt = None \<rparr>"

text \<open>
  \<^verbatim>\<open>process.env.CLOUDINARY_FOLDER || 'tracks'\<close>, then \<^verbatim>\<open>`${folder}/${id}`\<close>.
\<close>

definition folder :: "world \<Rightarrow> string" where
  "folder w = (case CLOUDINARY_FOLDER w of None \<Rightarrow> ''tracks''
               | Some f \<Rightarrow> if f = [] then ''tracks'' else f)"

definition publicId :: "world \<Rightarrow> string \<Rightarrow> string" where
  "publicId w i = folder w @ ''/'' @ i"

definition deleteAudioFile :: "clock \<Rightarrow> world \<Rightarrow> string \<Rightarrow> (error + bool) \<times> world" where
  "deleteAudioFile clk w i =
     (case getTrackById w i of
        None \<Rightarrow> (Inr False, w)
      | Some t \<Rightarrow>
          if audioFile t = [] then (Inr False, w)
          else
            (let w1 = w\<lparr>media := destroy (publicId w i) (media w)\<rparr> in
             case updateTrack clk w1 i (no_updates\<lparr>upd_audioFile := Some []\<rparr>) of
               (Inl e, w2) \<Rightarrow> (Inl e, w2)
             | (Inr _, w2) \<Rightarrow> (Inr True, w2)))"

definition deleteTrack :: "clock \<Rightarrow> world \<Rightarrow> string \<Rightarrow> (error + bool) \<times> world" where
  "deleteTrack clk w i =
     (case findOneAndDelete (\<lambda>t. id_of t = i) (tracks w) of
        (None, _) \<Rightarrow> (Inr False, w)
      | (Some t, docs) \<Rightarrow>
          (let w1 = w\<lparr>tracks := docs\<rparr> in
           if audioFile t \<noteq> [] then
             (case deleteAudioFile clk w1 i of
                (Inl e, w2) \<Rightarrow> (Inl e, w2)
              | (Inr _, w2) \<Rightarrow> (Inr True, w2))
           else (Inr True, w1)))"

fun deleteMultipleTracks_loop ::
  "clock \<Rightarrow> world \<Rightarrow> string list \<Rightarrow> BatchDeleteResponse \<Rightarrow> (error + BatchDeleteResponse) \<times> world" where
  "deleteMultipleTracks_loop clk w [] results = (Inr results, w)"
| "deleteMultipleTracks_loop clk w (i # ids) results =
     (case deleteTrack clk w i of
        (Inl e, w') \<Rightarrow> (Inl e, w')
      | (Inr deleted, w') \<Rightarrow>
          deleteMultipleTracks_loop clk w' ids
            (if deleted then results\<lparr>success := success results @ [i]\<rparr>
             else results\<lparr>failed := failed results @ [i]\<rparr>))"

definition deleteMultipleTracks ::
  "clock \<Rightarrow> world \<Rightarrow> string list \<Rightarrow> (error + BatchDeleteResponse) \<times> world" where
  "deleteMultipleTracks clk w ids =
     deleteMultipleTracks_loop clk w ids \<lparr>success = [], failed = []\<rparr>"


text \<open>
  \<^verbatim>\<open>Date.now().toString()\<close>: the decimal digits of a non-negative integer, most
  significant first, no leading zero.
\<close>

definition digit_char :: "nat \<Rightarrow> char" where
  "digit_char d = ''0123456789'' ! d"

function toString :: "nat \<Rightarrow> string" where
  "toString n = (if n < 10 then [digit_char n] else toString (n div 10) @ [digit_char (n mod 10)])"
  by pat_completeness auto
termination
  by (relation "measure (\<lambda>n. n)") auto

declare toString.simps [simp del]

text \<open>
  The document \<^verbatim>\<open>{ ...track, id, createdAt: now, updatedAt: now }\<close> handed to
  \<^verbatim>\<open>TrackModel.create\<close>, with the schema's defaults for the absent paths.
\<close>

definition new_document :: "new_track \<Rightarrow> string \<Rightarrow> string \<Rightarrow> track" where
  "new_document track i now =
     \<lparr> id_of = i,
       title = new_title track,
       artist = new_artist track,
       album = set_path (new_album track) [],
       genres = set_path (new_genres track) [],
       coverImage = set_path (new_coverImage track) [],
       audioFile = set_path (new_audioFile track) [],
       slug = new_slug track,
       createdAt = now,
       updatedAt = now \<rparr>"

definition generated_id :: "clock \<Rightarrow> string" where
  "generated_id clk = toString (now_ms clk)"

definition createTrack :: "clock \<Rightarrow> world \<Rightarrow> new_track \<Rightarrow> (error + track) \<times> world" where
  "createTrack clk w track =
     (let i = generated_id clk; now = now_iso clk in
      case create (new_document track i now) (tracks w) of
        Inl e \<Rightarrow> (Inl e, w)
      | Inr (newTrack, docs) \<Rightarrow> (Inr newTrack, w\<lparr>tracks := docs\<rparr>))"


section \<open>Queries\<close>

text \<open>
  Modelled from the spec: the declaration of \<^verbatim>\<open>QueryParams\<close> (in \<^verbatim>\<open>../types\<close>) is not
  among the sources. Its keys are the ones \<^verbatim>\<open>getTracks\<close> destructures, all optional:
  \<^verbatim>\<open>search\<close>, \<^verbatim>\<open>genre\<close> and \<^verbatim>\<open>artist\<close> are strings, \<^verbatim>\<open>sort\<close> names a stored field,
  \<^verbatim>\<open>order\<close> is a string, \<^verbatim>\<open>page\<close> and \<^verbatim>\<open>limit\<close> are (whole) numbers.
\<close>

datatype path =
  P_id | P_title | P_artist | P_album | P_genres | P_coverImage | P_audioFile | P_slug
  | P_createdAt | P_updatedAt

record QueryParams =
  q_search :: "string option"
  q_genre :: "string option"
  q_artist :: "string option"
  q_sort :: "path option"
  q_order :: "string option"
  q_page :: "int option"
  q_limit :: "int option"

text \<open>
  A compiled regular expression is the set of strings it matches.
  \<^verbatim>\<open>new RegExp(pattern, 'i')\<close> is a parameter of the query functions: it yields the
  compiled expression, or nothing when the pattern is not a valid expression (the
  constructor throws a \<^verbatim>\<open>SyntaxError\<close>).
\<close>

type_synonym regexp = "string \<Rightarrow> bool"

type_synonym RegExp_i = "string \<Rightarrow> regexp option"

text \<open>
  The filter object: \<^verbatim>\<open>$or\<close> over \<^verbatim>\<open>title\<close>, \<^verbatim>\<open>artist\<close>, \<^verbatim>\<open>album\<close> with one
  expression, \<^verbatim>\<open>genres\<close> equal to a string (an array path matches when one element is
  equal), \<^verbatim>\<open>artist\<close> matching an expression. An absent key constrains nothing.
\<close>

record filter_doc =
  f_or :: "regexp option"
  f_genres :: "string option"
  f_artist :: "regexp option"

definition matches :: "filter_doc \<Rightarrow> track \<Rightarrow> bool" where
  "matches f t \<longleftrightarrow>
     (case f_or f of None \<Rightarrow> True | Some r \<Rightarrow> r (title t) \<or> r (artist t) \<or> r (album t))
     \<and> (case f_genres f of None \<Rightarrow> True | Some g \<Rightarrow> g \<in> set (genres t))
     \<and> (case f_artist f of None \<Rightarrow> True | Some r \<Rightarrow> r (artist t))"

definition countDocuments :: "filter_doc \<Rightarrow> track list \<Rightarrow> nat" where
  "countDocuments f docs = length (filter (matches f) docs)"

definition find_docs :: "filter_doc \<Rightarrow> track list \<Rightarrow> track list" where
  "find_docs f docs = filter (matches f) docs"

text \<open>
  The key a document is sorted by. Strings compare byte by byte. For the array path
  \<^verbatim>\<open>genres\<close> an ascending sort compares the least element and a descending sort the
  greatest, and an empty array sorts below every string.
\<close>

fun array_key :: "int \<Rightarrow> string list \<Rightarrow> nat \<times> string" where
  "array_key dir [] = (0, [])"
| "array_key dir (g # gs) = (1, if 0 < dir then fold min gs g else fold max gs g)"

fun sort_key_of :: "int \<Rightarrow> path \<Rightarrow> track \<Rightarrow> nat \<times> string" where
  "sort_key_of dir P_id t = (1, id_of t)"
| "sort_key_of dir P_title t = (1, title t)"
| "sort_key_of dir P_artist t = (1, artist t)"
| "sort_key_of dir P_album t = (1, album t)"
| "sort_key_of dir P_genres t = array_key dir (genres t)"
| "sort_key_of dir P_coverImage t = (1, coverImage t)"
| "sort_key_of dir P_audioFile t = (1, audioFile t)"
| "sort_key_of dir P_slug t = (1, slug t)"
| "sort_key_of dir P_createdAt t = (1, createdAt t)"
| "sort_key_of dir P_updatedAt t = (1, updatedAt t)"

text \<open>
  \<^verbatim>\<open>.sort({ [sort]: dir })\<close>: ascending for a positive direction, descending otherwise;
  documents with equal keys keep their order in the collection.
\<close>

definition sort_docs :: "path \<Rightarrow> int \<Rightarrow> track list \<Rightarrow> track list" where
  "sort_docs p dir docs =
     (if 0 < dir then sort_key (sort_key_of dir p) docs
      else rev (sort_key (sort_key_of dir p) (rev docs)))"

text \<open>
  \<^verbatim>\<open>.skip(n)\<close>: the server refuses a negative value. \<^verbatim>\<open>.limit(n)\<close>: zero means no
  limit; a negative value is sent as its absolute value.
\<close>

definition skip_docs :: "int \<Rightarrow> track list \<Rightarrow> error + track list" where
  "skip_docs n docs = (if n < 0 then Inl BadValue else Inr (drop (nat n) docs))"

definition limit_docs :: "int \<Rightarrow> track list \<Rightarrow> track list" where
  "limit_docs n docs = (if n = 0 then docs else take (nat \<bar>n\<bar>) docs)"

text \<open>
  Lines 145 to 157 of the source: the filter built from \<^verbatim>\<open>search\<close>, \<^verbatim>\<open>genre\<close> and
  \<^verbatim>\<open>artist\<close>; an empty string is falsy, as an absent key is.
\<close>

definition build_filter ::
  "RegExp_i \<Rightarrow> string \<Rightarrow> string option \<Rightarrow> string option \<Rightarrow> error + filter_doc" where
  "build_filter RegExp search genre artist' =
     (let f0 = \<lparr> f_or = None, f_genres = None, f_artist = None \<rparr> in
      case (if search \<noteq> [] then
              (case RegExp search of None \<Rightarrow> Inl SyntaxError
               | Some regex \<Rightarrow> Inr (f0\<lparr>f_or := Some regex\<rparr>))
            else Inr f0) of
        Inl e \<Rightarrow> Inl e
      | Inr f1 \<Rightarrow>
          (let f2 = (case genre of None \<Rightarrow> f1
                     | Some g \<Rightarrow> if g \<noteq> [] then f1\<lparr>f_genres := Some g\<rparr> else f1) in
           case artist' of
             None \<Rightarrow> Inr f2
           | Some a \<Rightarrow>
               if a \<noteq> [] then
                 (case RegExp a of None \<Rightarrow> Inl SyntaxError
                  | Some regex \<Rightarrow> Inr (f2\<lparr>f_artist := Some regex\<rparr>))
               else Inr f2))"

definition getTracks :: "RegExp_i \<Rightarrow> world \<Rightarrow> QueryParams \<Rightarrow> error + (track list \<times> nat)" where
  "getTracks RegExp w params =
     (let search = set_path (q_search params) [];
          genre = q_genre params;
          artist' = q_artist params;
          sort' = set_path (q_sort params) P_createdAt;
          order' = set_path (q_order params) ''desc'';
          page = set_path (q_page params) 1;
          limit = set_path (q_limit params) 10
      in
      case build_filter RegExp search genre artist' of
        Inl e \<Rightarrow> Inl e
      | Inr f \<Rightarrow>
          (let total = countDocuments f (tracks w) in
           case skip_docs ((page - 1) * limit)
                  (sort_docs sort' (if order' = ''asc'' then 1 else - 1) (find_docs f (tracks w))) of
             Inl e \<Rightarrow> Inl e
           | Inr skipped \<Rightarrow> Inr (limit_docs limit skipped, total)))"

definition no_params :: QueryParams where
  "no_params =
     \<lparr> q_search = None, q_genre = None, q_artist = None, q_sort = None, q_order = None,
       q_page = None, q_limit = None \<rparr>"


section \<open>Example data\<close>

definition song_a :: track where
  "song_a =
     \<lparr> id_of = ''1700000000000'', title = ''Song'', artist = ''Band'', album = [],
       genres = [''Rock''], coverImage = [],
       audioFile = ''https://res.cloudinary.com/demo/video/upload/tracks/1700000000000.mp3'',
       slug = ''song'', createdAt = ''2023-11-14T22:13:20.000Z'',
       updatedAt = ''2023-11-14T22:13:20.000Z'' \<rparr>"

definition world_a :: world where
  "world_a = \<lparr> tracks = [song_a], media = {''tracks/1700000000000''}, CLOUDINARY_FOLDER = None \<rparr>"

definition clock_a :: clock where
  "clock_a = \<lparr> now_ms = 1700000600000, now_iso = ''2023-11-14T22:23:20.000Z'' \<rparr>"

definition clock_b :: clock where
  "clock_b = \<lparr> now_ms = 1700000600001, now_iso = ''2023-11-14T22:23:20.001Z'' \<rparr>"

definition world_empty :: world where
  "world_empty = \<lparr> tracks = [], media = {}, CLOUDINARY_FOLDER = None \<rparr>"

definition new_a :: new_track where
  "new_a = \<lparr> new_title = ''Alpha'', new_artist = ''Band'', new_album = None, new_genres = None,
             new_coverImage = None, new_audioFile = None, new_slug = ''alpha'' \<rparr>"

definition new_b :: new_track where
  "new_b = \<lparr> new_title = ''Beta'', new_artist = ''Band'', new_album = Some ''LP'',
             new_genres = Some [''Jazz''], new_coverImage = None, new_audioFile = None,
             new_slug = ''beta'' \<rparr>"

definition track_of :: "string \<Rightarrow> string \<Rightarrow> string \<Rightarrow> string \<Rightarrow> track" where
  "track_of i name by created =
     \<lparr> id_of = i, title = name, artist = by, album = [], genres = [], coverImage = [],
       audioFile = [], slug = name, createdAt = created, updatedAt = created \<rparr>"

definition world_ab :: world where
  "world_ab =
     \<lparr> tracks = [track_of ''a'' ''first'' ''Ann'' ''2024-01-01T00:00:00.000Z'',
                 track_of ''b'' ''second'' ''Bob'' ''2024-01-02T00:00:00.000Z''],
       media = {}, CLOUDINARY_FOLDER = None \<rparr>"

text \<open>
  The example queries below carry no pattern, so the constructor of regular expressions
  is never called in them; this one stands in for it.
\<close>

definition no_RegExp :: RegExp_i where
  "no_RegExp pattern = None"

definition rock_a :: track where
  "rock_a = (track_of ''1'' ''alpha'' ''Ann'' ''2024-01-01T00:00:00.000Z'')\<lparr>genres := [''Rock'']\<rparr>"

definition jazz_b :: track where
  "jazz_b = (track_of ''2'' ''beta'' ''Bob'' ''2024-01-03T00:00:00.000Z'')\<lparr>genres := [''Jazz'']\<rparr>"

definition rock_c :: track where
  "rock_c = (track_of ''3'' ''gamma'' ''Cy'' ''2024-01-02T00:00:00.000Z'')\<lparr>genres := [''Rock'', ''Pop'']\<rparr>"

definition world_q :: world where
  "world_q = \<lparr> tracks = [rock_a, jazz_b, rock_c], media = {}, CLOUDINARY_FOLDER = None \<rparr>"


section \<open>Facts about the collection operations\<close>

lemma now_iso_clock_a: "now_iso clock_a = ''2023-11-14T22:23:20.000Z''"
  by (simp add: clock_a_def)

lemma find_satisfies: "List.find p docs = Some d \<Longrightarrow> p d"
  by (induction docs) (auto split: if_splits)

lemma find_replace_first:
  "List.find p docs = Some d \<Longrightarrow> p d' \<Longrightarrow> List.find p (replace_first p d' docs) = Some d'"
  by (induction docs) (auto split: if_splits)

lemma apply_updates_audio:
  "apply_updates (no_updates\<lparr>upd_audioFile := Some [], upd_updatedAt := Some s\<rparr>) t
     = t\<lparr>audioFile := [], updatedAt := s\<rparr>"
  by (simp add: apply_updates_def no_updates_def set_path_def)

lemma updateTrack_clear_audio:
  assumes "List.find (\<lambda>t. id_of t = i) (tracks w) = Some t"
  shows "updateTrack clk w i (no_updates\<lparr>upd_audioFile := Some []\<rparr>)
    = (Inr (Some (t\<lparr>audioFile := [], updatedAt := now_iso clk\<rparr>)),
       w\<lparr>tracks := replace_first (\<lambda>t. id_of t = i)
                      (t\<lparr>audioFile := [], updatedAt := now_iso clk\<rparr>) (tracks w)\<rparr>)"
  using assms by (simp add: updateTrack_def findOneAndUpdate_def apply_updates_audio Let_def)


section \<open>Deleting a track and its audio\<close>

text \<open>
  Claim C1 (it fails on the code). \<^verbatim>\<open>deleteTrack\<close> removes the record first, so the
  cascading \<^verbatim>\<open>deleteAudioFile\<close> no longer finds the track and returns before it
  reaches the Media Store: the record of a track with a non-empty \<^verbatim>\<open>audioFile\<close> is
  deleted, the call answers true, and the media object is still in the Media Store.
\<close>

theorem deleteTrack_leaves_media_object:
  "deleteTrack clock_a world_a ''1700000000000''
     = (Inr True,
        \<lparr> tracks = [], media = {''tracks/1700000000000''}, CLOUDINARY_FOLDER = None \<rparr>)"
  by (simp add: deleteTrack_def deleteAudioFile_def getTrackById_def findOne_def
      world_a_def song_a_def)

text \<open>
  Claim C7. \<^verbatim>\<open>deleteAudioFile(id)\<close> returns false and changes neither store when the
  track is absent or its \<^verbatim>\<open>audioFile\<close> is empty; otherwise it returns true, the media
  object under the track's public id is gone from the Media Store, and the track is read
  back with an empty \<^verbatim>\<open>audioFile\<close> (and a refreshed \<^verbatim>\<open>updatedAt\<close>).
\<close>

theorem deleteAudioFile_spec:
  "(case getTrackById w i of
      None \<Rightarrow> deleteAudioFile clk w i = (Inr False, w)
    | Some t \<Rightarrow>
        if audioFile t = [] then deleteAudioFile clk w i = (Inr False, w)
        else fst (deleteAudioFile clk w i) = Inr True
           \<and> media (snd (deleteAudioFile clk w i)) = media w - {publicId w i}
           \<and> getTrackById (snd (deleteAudioFile clk w i)) i
               = Some (t\<lparr>audioFile := [], updatedAt := now_iso clk\<rparr>))"
proof (cases "getTrackById w i")
  case None
  then show ?thesis by (simp add: deleteAudioFile_def)
next
  case (Some t)
  show ?thesis
  proof (cases "audioFile t = []")
    case True
    with Some show ?thesis by (simp add: deleteAudioFile_def)
  next
    case False
    let ?w1 = "w\<lparr>media := destroy (publicId w i) (media w)\<rparr>"
    let ?t' = "t\<lparr>audioFile := [], updatedAt := now_iso clk\<rparr>"
    from Some have f: "List.find (\<lambda>t. id_of t = i) (tracks ?w1) = Some t"
      by (simp add: getTrackById_def findOne_def)
    then have idt: "id_of t = i" by (rule find_satisfies)
    have d: "deleteAudioFile clk w i
        = (Inr True, ?w1\<lparr>tracks := replace_first (\<lambda>t. id_of t = i) ?t' (tracks ?w1)\<rparr>)"
      using Some False updateTrack_clear_audio [OF f, of clk]
      by (simp add: deleteAudioFile_def Let_def)
    have "List.find (\<lambda>t. id_of t = i) (replace_first (\<lambda>t. id_of t = i) ?t' (tracks ?w1)) = Some ?t'"
      using f idt by (intro find_replace_first) simp_all
    with d Some False show ?thesis
      by (simp add: getTrackById_def findOne_def destroy_def)
  qed
qed

theorem deleteAudioFile_spec_witness:
  "getTrackById world_a ''1700000000000'' = Some song_a \<and> audioFile song_a \<noteq> []
   \<and> fst (deleteAudioFile clock_a world_a ''1700000000000'') = Inr True
   \<and> media (snd (deleteAudioFile clock_a world_a ''1700000000000'')) = {}
   \<and> getTrackById (snd (deleteAudioFile clock_a world_a ''1700000000000'')) ''1700000000000''
        = Some (song_a\<lparr>audioFile := [], updatedAt := ''2023-11-14T22:23:20.000Z''\<rparr>)
   \<and> getTrackById world_a ''42'' = None
   \<and> deleteAudioFile clock_a world_a ''42'' = (Inr False, world_a)"
proof -
  have g: "getTrackById world_a ''1700000000000'' = Some song_a"
    by (simp add: getTrackById_def findOne_def world_a_def song_a_def)
  have a: "audioFile song_a \<noteq> []" by (simp add: song_a_def)
  have n: "getTrackById world_a ''42'' = None"
    by (simp add: getTrackById_def findOne_def world_a_def song_a_def)
  have p: "media world_a - {publicId world_a ''1700000000000''} = {}"
    by (simp add: world_a_def publicId_def folder_def)
  show ?thesis
    using deleteAudioFile_spec [where w = world_a and i = "''1700000000000''" and clk = clock_a]
      deleteAudioFile_spec [where w = world_a and i = "''42''" and clk = clock_a] g a n p
    by (simp add: clock_a_def)
qed

section \<open>Creating a track\<close>

lemma digit_char_inj: "d < 10 \<Longrightarrow> e < 10 \<Longrightarrow> digit_char d = digit_char e \<Longrightarrow> d = e"
proof -
  assume a: "d < 10" "e < 10" "digit_char d = digit_char e"
  have "distinct ''0123456789''" by simp
  moreover have "d < length ''0123456789''" "e < length ''0123456789''" using a by simp_all
  ultimately show "d = e" using a(3) unfolding digit_char_def
    by (simp only: nth_eq_iff_index_eq)
qed

lemma toString_not_Nil: "toString n \<noteq> []"
  by (subst toString.simps) simp

lemma toString_inj: "toString n = toString m \<Longrightarrow> n = m"
proof (induction n arbitrary: m rule: toString.induct)
  case (1 n)
  show ?case
  proof (cases "n < 10")
    case True
    show ?thesis
    proof (cases "m < 10")
      case m: True
      from "1.prems" True m have "digit_char n = digit_char m"
        by (simp add: toString.simps [of n] toString.simps [of m])
      with True m show ?thesis by (rule digit_char_inj)
    next
      case m: False
      from "1.prems" True m have "[digit_char n] = toString (m div 10) @ [digit_char (m mod 10)]"
        by (simp add: toString.simps [of n] toString.simps [of m])
      then have "toString (m div 10) = []" by simp
      then show ?thesis by (simp add: toString_not_Nil)
    qed
  next
    case False
    show ?thesis
    proof (cases "m < 10")
      case m: True
      from "1.prems" False m have "toString (n div 10) @ [digit_char (n mod 10)] = [digit_char m]"
        by (simp add: toString.simps [of n] toString.simps [of m])
      then have "toString (n div 10) = []" by simp
      then show ?thesis by (simp add: toString_not_Nil)
    next
      case m: False
      from "1.prems" False m
      have "toString (n div 10) @ [digit_char (n mod 10)] = toString (m div 10) @ [digit_char (m mod 10)]"
        by (simp add: toString.simps [of n] toString.simps [of m])
      then have a: "toString (n div 10) = toString (m div 10)"
        and b: "digit_char (n mod 10) = digit_char (m mod 10)" by simp_all
      from "1.IH" [OF False a] have q: "n div 10 = m div 10" .
      have r: "n mod 10 = m mod 10" by (rule digit_char_inj [OF _ _ b]) simp_all
      from q r show ?thesis by (metis div_mult_mod_eq)
    qed
  qed
qed



lemma generated_id_clock_a: "generated_id clock_a = ''1700000600000''"
  by (simp add: generated_id_def clock_a_def toString.simps digit_char_def)

lemma generated_id_clock_b: "generated_id clock_b = ''1700000600001''"
  by (simp add: generated_id_def clock_b_def toString.simps digit_char_def)

lemma createTrack_new_a:
  "createTrack clock_a world_empty new_a
     = (Inr (new_document new_a ''1700000600000'' ''2023-11-14T22:23:20.000Z''),
        world_empty\<lparr>tracks := [new_document new_a ''1700000600000'' ''2023-11-14T22:23:20.000Z'']\<rparr>)"
  by (simp add: createTrack_def Let_def generated_id_clock_a now_iso_clock_a create_def
      required_ok_def new_document_def world_empty_def new_a_def set_path_def)

lemma generated_id_not_Nil: "generated_id clk \<noteq> []"
  by (simp add: generated_id_def toString_not_Nil)

lemma createTrack_stored_id:
  assumes "generated_id clk \<in> id_of ` set (tracks w)"
  shows "createTrack clk w track =
            (Inl (if new_title track \<noteq> [] \<and> new_artist track \<noteq> [] \<and> new_slug track \<noteq> []
                     \<and> now_iso clk \<noteq> []
                  then DuplicateKey else ValidationError), w)"
proof -
  have r: "required_ok (new_document track (generated_id clk) (now_iso clk)) \<longleftrightarrow>
      new_title track \<noteq> [] \<and> new_artist track \<noteq> [] \<and> new_slug track \<noteq> [] \<and> now_iso clk \<noteq> []"
    by (auto simp: required_ok_def new_document_def generated_id_not_Nil)
  have i: "id_of (new_document track (generated_id clk) (now_iso clk)) = generated_id clk"
    by (simp add: new_document_def)
  show ?thesis
    using assms unfolding createTrack_def create_def Let_def r i by simp
qed

text \<open>
  Claim C2 fails as stated: the generated id is the decimal rendering of the clock's
  millisecond reading and nothing else, so two calls at the same instant generate the
  same id. Here the first call stores its track under that id and the second, for another
  track, is refused by the unique index and leaves the store as it was.
\<close>

theorem createTrack_same_instant_counterexample:
  "generated_id clock_a = ''1700000600000''
   \<and> fst (createTrack clock_a world_empty new_a)
       = Inr (new_document new_a ''1700000600000'' ''2023-11-14T22:23:20.000Z'')
   \<and> createTrack clock_a (snd (createTrack clock_a world_empty new_a)) new_b
       = (Inl DuplicateKey, snd (createTrack clock_a world_empty new_a))"
proof -
  have "createTrack clock_a
          (world_empty\<lparr>tracks := [new_document new_a ''1700000600000'' ''2023-11-14T22:23:20.000Z'']\<rparr>)
          new_b
      = (Inl DuplicateKey,
         world_empty\<lparr>tracks := [new_document new_a ''1700000600000'' ''2023-11-14T22:23:20.000Z'']\<rparr>)"
    by (simp add: createTrack_def Let_def generated_id_clock_a now_iso_clock_a create_def
        required_ok_def new_document_def new_b_def set_path_def)
  then show ?thesis
    by (simp add: createTrack_new_a generated_id_clock_a)
qed

text \<open>
  Claim C2, amended. Calls at different clock instants generate different ids. A created
  track carries the generated id, which no stored track had, and is appended to the
  store. A call whose generated id is already stored (a call at the instant of an earlier
  one) fails and leaves the store unchanged: with the store's uniqueness violation when
  the title, artist and slug handed in and the timestamp are non-empty, with the
  schema's validation error otherwise. Hence ids that are unique across the store stay
  unique after every call, successful or not.
\<close>

theorem createTrack_ids:
  "(now_ms clk1 \<noteq> now_ms clk2 \<longrightarrow> generated_id clk1 \<noteq> generated_id clk2)
   \<and> (\<forall>t. fst (createTrack clk w track) = Inr t \<longrightarrow>
          id_of t = generated_id clk \<and> id_of t \<notin> id_of ` set (tracks w)
          \<and> tracks (snd (createTrack clk w track)) = tracks w @ [t])
   \<and> (generated_id clk \<in> id_of ` set (tracks w) \<longrightarrow>
          createTrack clk w track =
            (Inl (if new_title track \<noteq> [] \<and> new_artist track \<noteq> [] \<and> new_slug track \<noteq> []
                     \<and> now_iso clk \<noteq> []
                  then DuplicateKey else ValidationError), w))
   \<and> (distinct (map id_of (tracks w)) \<longrightarrow>
          distinct (map id_of (tracks (snd (createTrack clk w track)))))"
proof (intro conjI allI impI)
  assume "now_ms clk1 \<noteq> now_ms clk2"
  then show "generated_id clk1 \<noteq> generated_id clk2"
    using toString_inj by (auto simp: generated_id_def)
next
  fix t assume a: "fst (createTrack clk w track) = Inr t"
  then show "id_of t = generated_id clk"
    by (auto simp: createTrack_def create_def new_document_def Let_def split: if_splits)
  from a show "id_of t \<notin> id_of ` set (tracks w)"
    by (auto simp: createTrack_def create_def Let_def split: if_splits)
  from a show "tracks (snd (createTrack clk w track)) = tracks w @ [t]"
    by (auto simp: createTrack_def create_def Let_def split: if_splits)
next
  assume "generated_id clk \<in> id_of ` set (tracks w)"
  then show "createTrack clk w track =
            (Inl (if new_title track \<noteq> [] \<and> new_artist track \<noteq> [] \<and> new_slug track \<noteq> []
                     \<and> now_iso clk \<noteq> []
                  then DuplicateKey else ValidationError), w)"
    by (rule createTrack_stored_id)
next
  assume "distinct (map id_of (tracks w))"
  then show "distinct (map id_of (tracks (snd (createTrack clk w track))))"
    by (auto simp: createTrack_def create_def Let_def split: if_splits)
qed

theorem createTrack_ids_witness:
  "now_ms clock_a \<noteq> now_ms clock_b \<and> generated_id clock_a \<noteq> generated_id clock_b
   \<and> fst (createTrack clock_a world_empty new_a)
       = Inr (new_document new_a ''1700000600000'' ''2023-11-14T22:23:20.000Z'')
   \<and> tracks (snd (createTrack clock_a world_empty new_a))
       = [new_document new_a ''1700000600000'' ''2023-11-14T22:23:20.000Z'']
   \<and> generated_id clock_a \<in> id_of ` set (tracks (snd (createTrack clock_a world_empty new_a)))
   \<and> createTrack clock_a (snd (createTrack clock_a world_empty new_a)) new_b
        = (Inl DuplicateKey, snd (createTrack clock_a world_empty new_a))
   \<and> createTrack clock_a (snd (createTrack clock_a world_empty new_a)) (new_b\<lparr>new_title := []\<rparr>)
        = (Inl ValidationError, snd (createTrack clock_a world_empty new_a))
   \<and> distinct (map id_of (tracks world_a))
   \<and> distinct (map id_of (tracks (snd (createTrack clock_b world_a new_b))))"
proof -
  let ?w1 = "snd (createTrack clock_a world_empty new_a)"
  have n: "now_ms clock_a \<noteq> now_ms clock_b" by (simp add: clock_a_def clock_b_def)
  have c: "fst (createTrack clock_a world_empty new_a)
       = Inr (new_document new_a ''1700000600000'' ''2023-11-14T22:23:20.000Z'')"
    by (simp add: createTrack_new_a)
  have m: "generated_id clock_a \<in> id_of ` set (tracks ?w1)"
    by (simp add: createTrack_new_a generated_id_clock_a new_document_def)
  have d: "distinct (map id_of (tracks world_a))" by (simp add: world_a_def)
  have b: "new_title new_b \<noteq> [] \<and> new_artist new_b \<noteq> [] \<and> new_slug new_b \<noteq> []
      \<and> now_iso clock_a \<noteq> []"
    by (simp add: new_b_def now_iso_clock_a)
  have e: "\<not> (new_title (new_b\<lparr>new_title := []\<rparr>) \<noteq> [] \<and> new_artist (new_b\<lparr>new_title := []\<rparr>) \<noteq> []
      \<and> new_slug (new_b\<lparr>new_title := []\<rparr>) \<noteq> [] \<and> now_iso clock_a \<noteq> [])"
    by simp
  note A = createTrack_ids [where ?clk1.0 = clock_a and ?clk2.0 = clock_b and clk = clock_a
        and w = world_empty and track = new_a]
  note B = createTrack_ids [where clk = clock_a and w = ?w1 and track = new_b]
  note C = createTrack_ids [where clk = clock_a and w = ?w1 and track = "new_b\<lparr>new_title := []\<rparr>"]
  note D = createTrack_ids [where clk = clock_b and w = world_a and track = new_b]
  from A n have g: "generated_id clock_a \<noteq> generated_id clock_b" by blast
  from A c have t: "tracks ?w1 = [new_document new_a ''1700000600000'' ''2023-11-14T22:23:20.000Z'']"
    by (simp add: world_empty_def)
  from B m have "createTrack clock_a ?w1 new_b =
      (Inl (if new_title new_b \<noteq> [] \<and> new_artist new_b \<noteq> [] \<and> new_slug new_b \<noteq> []
                     \<and> now_iso clock_a \<noteq> []
                  then DuplicateKey else ValidationError), ?w1)" by blast
  then have dup: "createTrack clock_a ?w1 new_b = (Inl DuplicateKey, ?w1)"
    using b by simp
  from C m have "createTrack clock_a ?w1 (new_b\<lparr>new_title := []\<rparr>) =
      (Inl (if new_title (new_b\<lparr>new_title := []\<rparr>) \<noteq> [] \<and> new_artist (new_b\<lparr>new_title := []\<rparr>) \<noteq> []
               \<and> new_slug (new_b\<lparr>new_title := []\<rparr>) \<noteq> [] \<and> now_iso clock_a \<noteq> []
                  then DuplicateKey else ValidationError), ?w1)" by blast
  then have val: "createTrack clock_a ?w1 (new_b\<lparr>new_title := []\<rparr>) = (Inl ValidationError, ?w1)"
    using e by simp
  from D d have k: "distinct (map id_of (tracks (snd (createTrack clock_b world_a new_b))))"
    by blast
  from n g c t m dup val d k show ?thesis by (intro conjI)
qed

section \<open>Updating a track\<close>

lemma map_id_replace_first:
  "id_of d' = i \<Longrightarrow> map id_of (replace_first (\<lambda>t. id_of t = i) d' docs) = map id_of docs"
  by (induction docs) auto

text \<open>
  Claim C3 fails as stated: an \<^verbatim>\<open>id\<close> key in the partial fields is written to the
  record like any other key. The one stored track has id 1700000000000; after the update
  with \<^verbatim>\<open>{ id: '42' }\<close> its id is 42.
\<close>

theorem updateTrack_changes_id_counterexample:
  "fst (updateTrack clock_a world_a ''1700000000000'' (no_updates\<lparr>upd_id := Some ''42''\<rparr>))
     = Inr (Some (song_a\<lparr>id_of := ''42'', updatedAt := ''2023-11-14T22:23:20.000Z''\<rparr>))
   \<and> map id_of (tracks world_a) = [''1700000000000'']
   \<and> map id_of (tracks (snd (updateTrack clock_a world_a ''1700000000000''
          (no_updates\<lparr>upd_id := Some ''42''\<rparr>)))) = [''42'']"
  by (simp add: updateTrack_def findOneAndUpdate_def Let_def apply_updates_def set_path_def
      no_updates_def now_iso_clock_a world_a_def song_a_def)

text \<open>
  Claim C3, amended. For partial fields without an \<^verbatim>\<open>id\<close> key (or whose \<^verbatim>\<open>id\<close> is
  the id asked for), \<^verbatim>\<open>updateTrack\<close> leaves the id of every stored record unchanged,
  and a track it returns has the id asked for and is the one read back under that id.
\<close>

theorem updateTrack_keeps_id:
  assumes "upd_id u = None \<or> upd_id u = Some i"
  shows "map id_of (tracks (snd (updateTrack clk w i u))) = map id_of (tracks w)
    \<and> (\<forall>t. fst (updateTrack clk w i u) = Inr (Some t) \<longrightarrow>
          id_of t = i \<and> getTrackById (snd (updateTrack clk w i u)) i = Some t)"
proof (cases "List.find (\<lambda>t. id_of t = i) (tracks w)")
  case None
  then show ?thesis by (simp add: updateTrack_def findOneAndUpdate_def)
next
  case (Some d)
  then have d: "id_of d = i" by (rule find_satisfies)
  let ?d' = "apply_updates (u\<lparr>upd_updatedAt := Some (now_iso clk)\<rparr>) d"
  from assms d have d': "id_of ?d' = i"
    by (auto simp: apply_updates_def set_path_def)
  show ?thesis
  proof (cases "slug ?d' \<noteq> slug d \<and> slug ?d' \<in> slug ` set (tracks w)")
    case True
    with Some d d' show ?thesis
      by (simp add: updateTrack_def findOneAndUpdate_def Let_def)
  next
    case False
    with Some d d' have e: "updateTrack clk w i u
        = (Inr (Some ?d'), w\<lparr>tracks := replace_first (\<lambda>t. id_of t = i) ?d' (tracks w)\<rparr>)"
      by (auto simp: updateTrack_def findOneAndUpdate_def Let_def)
    have "List.find (\<lambda>t. id_of t = i) (replace_first (\<lambda>t. id_of t = i) ?d' (tracks w)) = Some ?d'"
      using Some d' by (rule find_replace_first)
    with e d' show ?thesis
      by (simp add: map_id_replace_first getTrackById_def findOne_def)
  qed
qed

theorem updateTrack_keeps_id_witness:
  "upd_id (no_updates\<lparr>upd_title := Some ''Renamed''\<rparr>) = None
   \<and> map id_of (tracks (snd (updateTrack clock_a world_a ''1700000000000''
         (no_updates\<lparr>upd_title := Some ''Renamed''\<rparr>)))) = [''1700000000000'']
   \<and> fst (updateTrack clock_a world_a ''1700000000000'' (no_updates\<lparr>upd_title := Some ''Renamed''\<rparr>))
       = Inr (Some (song_a\<lparr>title := ''Renamed'', updatedAt := ''2023-11-14T22:23:20.000Z''\<rparr>))
   \<and> id_of (song_a\<lparr>title := ''Renamed'', updatedAt := ''2023-11-14T22:23:20.000Z''\<rparr>)
       = ''1700000000000''"
proof -
  have n: "upd_id (no_updates\<lparr>upd_title := Some ''Renamed''\<rparr>) = None"
    by (simp add: no_updates_def)
  have f: "fst (updateTrack clock_a world_a ''1700000000000'' (no_updates\<lparr>upd_title := Some ''Renamed''\<rparr>))
       = Inr (Some (song_a\<lparr>title := ''Renamed'', updatedAt := ''2023-11-14T22:23:20.000Z''\<rparr>))"
    by (simp add: updateTrack_def findOneAndUpdate_def Let_def apply_updates_def set_path_def
      no_updates_def now_iso_clock_a world_a_def song_a_def)
  have m: "map id_of (tracks world_a) = [''1700000000000'']"
    by (simp add: world_a_def song_a_def)
  show ?thesis
    using n f m updateTrack_keeps_id [where u = "no_updates\<lparr>upd_title := Some ''Renamed''\<rparr>"
        and i = "''1700000000000''" and clk = clock_a and w = world_a]
    by simp
qed

section \<open>The ids of the store stay unique\<close>

text \<open>
  Creating, updating and clearing the audio of a track keep the ids of the stored tracks
  distinct: the unique index refuses the one write that would not.
\<close>

lemma set_replace_first: "set (replace_first p d' docs) \<subseteq> insert d' (set docs)"
  by (induction docs) auto

lemma distinct_replace_first:
  assumes "distinct (map id_of docs)" and "List.find p docs = Some d"
    and "id_of d' = id_of d \<or> id_of d' \<notin> id_of ` set docs"
  shows "distinct (map id_of (replace_first p d' docs))"
  using assms
proof (induction docs)
  case Nil
  then show ?case by simp
next
  case (Cons x xs)
  show ?case
  proof (cases "p x")
    case True
    with Cons.prems show ?thesis by auto
  next
    case False
    with Cons.prems have f: "List.find p xs = Some d" by simp
    then have dx: "d \<in> set xs" by (auto simp: find_Some_iff)
    from Cons.prems dx have d': "id_of d' = id_of d \<or> id_of d' \<notin> id_of ` set xs" by auto
    from Cons.prems have "distinct (map id_of xs)" by simp
    from Cons.IH [OF this f d'] have ih: "distinct (map id_of (replace_first p d' xs))" .
    have "id_of x \<noteq> id_of d'"
      using Cons.prems dx by (auto simp: image_iff)
    moreover have "id_of x \<notin> id_of ` set xs" using Cons.prems by simp
    ultimately have "id_of x \<notin> id_of ` set (replace_first p d' xs)"
      using set_replace_first [of p d' xs] by auto
    with ih False show ?thesis by simp
  qed
qed

lemma updateTrack_distinct:
  assumes "distinct (map id_of (tracks w))"
  shows "distinct (map id_of (tracks (snd (updateTrack clk w i u))))"
proof (cases "List.find (\<lambda>t. id_of t = i) (tracks w)")
  case None
  with assms show ?thesis by (simp add: updateTrack_def findOneAndUpdate_def)
next
  case (Some d)
  let ?d' = "apply_updates (u\<lparr>upd_updatedAt := Some (now_iso clk)\<rparr>) d"
  show ?thesis
  proof (cases "(id_of ?d' \<noteq> id_of d \<and> id_of ?d' \<in> id_of ` set (tracks w))
              \<or> (slug ?d' \<noteq> slug d \<and> slug ?d' \<in> slug ` set (tracks w))")
    case True
    with Some assms show ?thesis
      by (simp add: updateTrack_def findOneAndUpdate_def Let_def)
  next
    case False
    then have "id_of ?d' = id_of d \<or> id_of ?d' \<notin> id_of ` set (tracks w)" by blast
    from distinct_replace_first [OF assms Some this] Some False assms show ?thesis
      by (simp add: updateTrack_def findOneAndUpdate_def Let_def)
  qed
qed

lemma createTrack_distinct:
  "distinct (map id_of (tracks w)) \<Longrightarrow> distinct (map id_of (tracks (snd (createTrack clk w track))))"
  by (auto simp: createTrack_def create_def Let_def split: if_splits)

lemma deleteAudioFile_distinct:
  assumes "distinct (map id_of (tracks w))"
  shows "distinct (map id_of (tracks (snd (deleteAudioFile clk w i))))"
proof -
  let ?w1 = "w\<lparr>media := destroy (publicId w i) (media w)\<rparr>"
  have "distinct (map id_of (tracks ?w1))" using assms by simp
  then have "distinct (map id_of (tracks (snd (updateTrack clk ?w1 i (no_updates\<lparr>upd_audioFile := Some []\<rparr>)))))"
    by (rule updateTrack_distinct)
  with assms show ?thesis
    by (auto simp: deleteAudioFile_def Let_def split: option.splits prod.splits sum.splits)
qed


section \<open>Deleting tracks from a store with unique ids\<close>

text \<open>
  The unique index on \<^verbatim>\<open>id\<close> keeps the ids of the stored tracks distinct (creation and
  update refuse a collision). The facts below are about such stores.
\<close>

lemma findOneAndDelete_absent:
  "\<forall>d \<in> set docs. \<not> p d \<Longrightarrow> findOneAndDelete p docs = (None, docs)"
  by (induction docs) auto

lemma findOneAndDelete_distinct:
  "distinct (map id_of docs) \<Longrightarrow>
   findOneAndDelete (\<lambda>t. id_of t = i) docs
     = (List.find (\<lambda>t. id_of t = i) docs, filter (\<lambda>t. id_of t \<noteq> i) docs)"
proof (induction docs)
  case Nil
  then show ?case by simp
next
  case (Cons d ds)
  show ?case
  proof (cases "id_of d = i")
    case True
    with Cons.prems have "\<forall>t \<in> set ds. id_of t \<noteq> i" by (auto simp: image_iff)
    then have "filter (\<lambda>t. id_of t \<noteq> i) ds = ds" by (simp add: filter_id_conv)
    with True show ?thesis by simp
  next
    case False
    with Cons show ?thesis by simp
  qed
qed

lemma find_id_filtered: "List.find (\<lambda>t. id_of t = i) (filter (\<lambda>t. id_of t \<noteq> i) docs) = None"
  by (simp add: find_None_iff)

lemma deleteTrack_absent:
  assumes "i \<notin> id_of ` set (tracks w)"
  shows "deleteTrack clk w i = (Inr False, w)"
proof -
  from assms have "\<forall>d \<in> set (tracks w). \<not> id_of d = i" by auto
  then have "findOneAndDelete (\<lambda>t. id_of t = i) (tracks w) = (None, tracks w)"
    by (rule findOneAndDelete_absent)
  then show ?thesis by (simp add: deleteTrack_def)
qed

lemma deleteTrack_distinct:
  assumes "distinct (map id_of (tracks w))"
  shows "deleteTrack clk w i
    = (Inr (i \<in> id_of ` set (tracks w)), w\<lparr>tracks := filter (\<lambda>t. id_of t \<noteq> i) (tracks w)\<rparr>)"
proof (cases "i \<in> id_of ` set (tracks w)")
  case False
  then have "filter (\<lambda>t. id_of t \<noteq> i) (tracks w) = tracks w"
    by (auto simp: filter_id_conv)
  with False show ?thesis by (simp add: deleteTrack_absent)
next
  case True
  then obtain t where t: "List.find (\<lambda>t. id_of t = i) (tracks w) = Some t"
    by (cases "List.find (\<lambda>t. id_of t = i) (tracks w)") (auto simp: find_None_iff)
  let ?w1 = "w\<lparr>tracks := filter (\<lambda>t. id_of t \<noteq> i) (tracks w)\<rparr>"
  have "getTrackById ?w1 i = None"
    by (simp add: getTrackById_def findOne_def find_id_filtered)
  then have "deleteAudioFile clk ?w1 i = (Inr False, ?w1)"
    by (simp add: deleteAudioFile_def)
  with t True show ?thesis
    by (simp add: deleteTrack_def findOneAndDelete_distinct [OF assms] Let_def)
qed

lemma deleteTrack_keeps_distinct:
  "distinct (map id_of (tracks w)) \<Longrightarrow> distinct (map id_of (tracks (snd (deleteTrack clk w i))))"
  by (simp add: deleteTrack_distinct distinct_map_filter)

lemma loop_append:
  "deleteMultipleTracks_loop clk w (xs @ ys) res
     = (case deleteMultipleTracks_loop clk w xs res of
          (Inl e, w') \<Rightarrow> (Inl e, w')
        | (Inr r, w') \<Rightarrow> deleteMultipleTracks_loop clk w' ys r)"
  by (induction xs arbitrary: w res) (auto split: prod.splits sum.splits)

lemma loop_distinct:
  "distinct (map id_of (tracks w)) \<Longrightarrow>
   \<exists>r. deleteMultipleTracks_loop clk w ids res
         = (Inr r, w\<lparr>tracks := filter (\<lambda>t. id_of t \<notin> set ids) (tracks w)\<rparr>)"
proof (induction ids arbitrary: w res)
  case Nil
  then show ?case by simp
next
  case (Cons i ids)
  let ?w1 = "w\<lparr>tracks := filter (\<lambda>t. id_of t \<noteq> i) (tracks w)\<rparr>"
  have d: "distinct (map id_of (tracks ?w1))"
    using Cons.prems by (simp add: distinct_map_filter)
  have f: "filter (\<lambda>t. id_of t \<notin> set ids) (tracks ?w1)
      = filter (\<lambda>t. id_of t \<notin> set (i # ids)) (tracks w)"
    by (auto intro: filter_cong)
  from Cons.IH [OF d] f show ?case
    by (simp add: deleteTrack_distinct [OF Cons.prems])
qed

lemma loop_snoc:
  assumes "distinct (map id_of (tracks w))"
    and "deleteMultipleTracks_loop clk w ids res = (Inr r, w')"
  shows "deleteMultipleTracks_loop clk w (ids @ [i]) res
    = (Inr (if i \<in> id_of ` set (tracks w) \<and> i \<notin> set ids
            then r\<lparr>success := success r @ [i]\<rparr> else r\<lparr>failed := failed r @ [i]\<rparr>),
       w'\<lparr>tracks := filter (\<lambda>t. id_of t \<noteq> i) (tracks w')\<rparr>)"
proof -
  from loop_distinct [OF assms(1), of clk ids res] assms(2)
  have w': "w' = w\<lparr>tracks := filter (\<lambda>t. id_of t \<notin> set ids) (tracks w)\<rparr>" by auto
  then have d: "distinct (map id_of (tracks w'))"
    using assms(1) by (simp add: distinct_map_filter)
  have m: "i \<in> id_of ` set (tracks w') \<longleftrightarrow> i \<in> id_of ` set (tracks w) \<and> i \<notin> set ids"
    using w' by auto
  show ?thesis
    using assms(2) m by (simp add: loop_append deleteTrack_distinct [OF d])
qed


text \<open>
  Claim C8. For an id that no stored track has, \<^verbatim>\<open>getTrackById\<close> returns null and
  \<^verbatim>\<open>deleteTrack\<close> returns false, with the stores unchanged and no error; for a slug that
  no stored track has, \<^verbatim>\<open>getTrackBySlug\<close> returns null. Consequently, in a store with
  unique ids a second \<^verbatim>\<open>deleteTrack\<close> of the same id returns false.
\<close>

theorem not_found_is_not_an_error:
  "(i \<notin> id_of ` set (tracks w) \<longrightarrow>
      getTrackById w i = None \<and> deleteTrack clk w i = (Inr False, w))
   \<and> (s \<notin> slug ` set (tracks w) \<longrightarrow> getTrackBySlug w s = None)
   \<and> (distinct (map id_of (tracks w)) \<longrightarrow>
      fst (deleteTrack clk' (snd (deleteTrack clk w i)) i) = Inr False)"
proof (intro conjI impI)
  assume "i \<notin> id_of ` set (tracks w)"
  then show "getTrackById w i = None"
    by (auto simp: getTrackById_def findOne_def find_None_iff)
next
  assume "i \<notin> id_of ` set (tracks w)"
  then show "deleteTrack clk w i = (Inr False, w)" by (rule deleteTrack_absent)
next
  assume "s \<notin> slug ` set (tracks w)"
  then show "getTrackBySlug w s = None"
    by (auto simp: getTrackBySlug_def findOne_def find_None_iff)
next
  assume d: "distinct (map id_of (tracks w))"
  have "i \<notin> id_of ` set (tracks (snd (deleteTrack clk w i)))"
    by (auto simp: deleteTrack_distinct [OF d])
  then show "fst (deleteTrack clk' (snd (deleteTrack clk w i)) i) = Inr False"
    by (simp add: deleteTrack_absent)
qed

theorem not_found_is_not_an_error_witness:
  "''c'' \<notin> id_of ` set (tracks world_ab)
   \<and> getTrackById world_ab ''c'' = None \<and> deleteTrack clock_a world_ab ''c'' = (Inr False, world_ab)
   \<and> ''third'' \<notin> slug ` set (tracks world_ab) \<and> getTrackBySlug world_ab ''third'' = None
   \<and> distinct (map id_of (tracks world_ab))
   \<and> fst (deleteTrack clock_a world_ab ''a'') = Inr True
   \<and> fst (deleteTrack clock_b (snd (deleteTrack clock_a world_ab ''a'')) ''a'') = Inr False"
proof -
  have a: "''c'' \<notin> id_of ` set (tracks world_ab)"
    and b: "''third'' \<notin> slug ` set (tracks world_ab)"
    and c: "distinct (map id_of (tracks world_ab))"
    by (simp_all add: world_ab_def track_of_def)
  have d: "fst (deleteTrack clock_a world_ab ''a'') = Inr True"
    by (simp add: deleteTrack_def world_ab_def track_of_def)
  show ?thesis
    using a b c d
      not_found_is_not_an_error [where i = "''c''" and w = world_ab and s = "''third''"
        and clk = clock_a and clk' = clock_b]
      not_found_is_not_an_error [where i = "''a''" and w = world_ab and s = "''third''"
        and clk = clock_a and clk' = clock_b]
    by simp
qed

lemma deleteMultipleTracks_snoc:
  assumes "distinct (map id_of (tracks w))"
    and "deleteMultipleTracks clk w ids = (Inr r, w')"
  shows "deleteMultipleTracks clk w (ids @ [i])
    = (Inr (if i \<in> id_of ` set (tracks w) \<and> i \<notin> set ids
            then r\<lparr>success := success r @ [i]\<rparr> else r\<lparr>failed := failed r @ [i]\<rparr>),
       w'\<lparr>tracks := filter (\<lambda>t. id_of t \<noteq> i) (tracks w')\<rparr>)"
  using assms unfolding deleteMultipleTracks_def by (rule loop_snoc)

lemma deleteMultipleTracks_world:
  assumes "distinct (map id_of (tracks w))"
  shows "\<exists>r. deleteMultipleTracks clk w ids
         = (Inr r, w\<lparr>tracks := filter (\<lambda>t. id_of t \<notin> set ids) (tracks w)\<rparr>)"
  using assms unfolding deleteMultipleTracks_def by (rule loop_distinct)

text \<open>
  Claim C4. \<^verbatim>\<open>deleteMultipleTracks\<close> never fails and goes through the whole input. The
  position \<open>k\<close> of the input lands in \<^verbatim>\<open>success\<close> exactly when its record existed
  when it was processed (the id is stored and did not occur earlier in the input), and
  in \<^verbatim>\<open>failed\<close> otherwise; both lists keep the input order. Afterwards no track with
  an id of the input is stored.
\<close>

theorem deleteMultipleTracks_partition:
  assumes "distinct (map id_of (tracks w))"
  shows "deleteMultipleTracks clk w ids =
    (Inr \<lparr> success = map ((!) ids)
              (filter (\<lambda>k. ids ! k \<in> id_of ` set (tracks w) \<and> ids ! k \<notin> set (take k ids))
                 [0..<length ids]),
            failed = map ((!) ids)
              (filter (\<lambda>k. \<not> (ids ! k \<in> id_of ` set (tracks w) \<and> ids ! k \<notin> set (take k ids)))
                 [0..<length ids]) \<rparr>,
     w\<lparr>tracks := filter (\<lambda>t. id_of t \<notin> set ids) (tracks w)\<rparr>)"
proof (induction ids rule: rev_induct)
  case Nil
  show ?case by (simp add: deleteMultipleTracks_def)
next
  case (snoc i ids)
  let ?S = "id_of ` set (tracks w)"
  let ?n = "length ids"
  let ?P = "\<lambda>xs k. xs ! k \<in> ?S \<and> xs ! k \<notin> set (take k xs)"
  have old: "\<And>k. k \<in> set [0..<?n] \<Longrightarrow> ?P (ids @ [i]) k = ?P ids k"
    by (simp add: nth_append)
  have nth_old: "\<And>k. k \<in> set [0..<?n] \<Longrightarrow> (ids @ [i]) ! k = ids ! k"
    by (simp add: nth_append)
  have f1: "filter (?P (ids @ [i])) [0..<?n] = filter (?P ids) [0..<?n]"
    using old by (intro filter_cong) auto
  have f2: "filter (\<lambda>k. \<not> ?P (ids @ [i]) k) [0..<?n] = filter (\<lambda>k. \<not> ?P ids k) [0..<?n]"
    using old by (intro filter_cong) auto
  have m1: "map ((!) (ids @ [i])) (filter (?P ids) [0..<?n]) = map ((!) ids) (filter (?P ids) [0..<?n])"
    using nth_old by (intro map_cong) auto
  have m2: "map ((!) (ids @ [i])) (filter (\<lambda>k. \<not> ?P ids k) [0..<?n])
      = map ((!) ids) (filter (\<lambda>k. \<not> ?P ids k) [0..<?n])"
    using nth_old by (intro map_cong) auto
  have last: "?P (ids @ [i]) ?n \<longleftrightarrow> i \<in> ?S \<and> i \<notin> set ids" by simp
  have w: "filter (\<lambda>t. id_of t \<noteq> i) (filter (\<lambda>t. id_of t \<notin> set ids) (tracks w))
      = filter (\<lambda>t. id_of t \<notin> set (ids @ [i])) (tracks w)"
    by (auto intro: filter_cong)
  show ?case
  proof (cases "i \<in> ?S \<and> i \<notin> set ids")
    case True
    with last have l: "?P (ids @ [i]) ?n" by blast
    from True show ?thesis
      using deleteMultipleTracks_snoc [OF assms snoc.IH, of i] l f1 f2 m1 m2 w
      by (simp del: take_append nth_append_length)
         (simp add: nth_append)
  next
    case False
    with last have l: "\<not> ?P (ids @ [i]) ?n" by blast
    from False show ?thesis
      using deleteMultipleTracks_snoc [OF assms snoc.IH, of i] l f1 f2 m1 m2 w
      by (simp del: take_append nth_append_length)
         (simp add: nth_append)
  qed
qed


theorem deleteMultipleTracks_partition_witness:
  "distinct (map id_of (tracks world_ab))
   \<and> deleteMultipleTracks clock_a world_ab [''a'', ''missing'', ''b'']
     = (Inr \<lparr> success = [''a'', ''b''], failed = [''missing''] \<rparr>, world_ab\<lparr>tracks := []\<rparr>)"
proof -
  have d: "distinct (map id_of (tracks world_ab))"
    by (simp add: world_ab_def track_of_def)
  have s: "id_of ` set (tracks world_ab) = {''a'', ''b''}"
    by (simp add: world_ab_def track_of_def)
  show ?thesis
    using d deleteMultipleTracks_partition [OF d, of clock_a "[''a'', ''missing'', ''b'']"]
    by (simp add: s) (simp add: world_ab_def track_of_def)
qed

lemma count_list_snoc: "count_list (xs @ [x]) y = count_list xs y + (if x = y then 1 else 0)"
  by (induction xs) auto

lemma deleteMultipleTracks_counts:
  assumes "distinct (map id_of (tracks w))"
  shows "\<exists>r w'. deleteMultipleTracks clk w ids = (Inr r, w')
     \<and> distinct (success r) \<and> set (success r) \<subseteq> set ids
     \<and> length (success r) + length (failed r) = length ids
     \<and> (\<forall>i. count_list (success r) i + count_list (failed r) i = count_list ids i)"
proof (induction ids rule: rev_induct)
  case Nil
  show ?case by (simp add: deleteMultipleTracks_def)
next
  case (snoc i ids)
  then obtain r w' where r: "deleteMultipleTracks clk w ids = (Inr r, w')"
    and d: "distinct (success r)" and s: "set (success r) \<subseteq> set ids"
    and l: "length (success r) + length (failed r) = length ids"
    and c: "\<forall>i. count_list (success r) i + count_list (failed r) i = count_list ids i"
    by blast
  show ?case
  proof (cases "i \<in> id_of ` set (tracks w) \<and> i \<notin> set ids")
    case True
    with s have "i \<notin> set (success r)" by blast
    with True d s l c show ?thesis
      using deleteMultipleTracks_snoc [OF assms r, of i]
      by (auto simp: count_list_snoc)
  next
    case False
    with d s l c show ?thesis
      using deleteMultipleTracks_snoc [OF assms r, of i]
      by (auto simp: count_list_snoc)
  qed
qed

lemma deleteMultipleTracks_again:
  assumes d: "distinct (map id_of (tracks w))" and i: "i \<in> set pre"
  shows "\<exists>r1 w1. deleteMultipleTracks clk w pre = (Inr r1, w1)
     \<and> deleteMultipleTracks clk w (pre @ [i]) = (Inr (r1\<lparr>failed := failed r1 @ [i]\<rparr>), w1)
     \<and> deleteMultipleTracks clk w (pre @ i # post)
         = deleteMultipleTracks_loop clk w1 post (r1\<lparr>failed := failed r1 @ [i]\<rparr>)"
proof -
  let ?w1 = "w\<lparr>tracks := filter (\<lambda>t. id_of t \<notin> set pre) (tracks w)\<rparr>"
  from deleteMultipleTracks_world [OF d, of clk pre]
  obtain r1 where r1: "deleteMultipleTracks clk w pre = (Inr r1, ?w1)" by blast
  have "filter (\<lambda>t. id_of t \<noteq> i) (tracks ?w1) = tracks ?w1"
    by (rule filter_True) (use i in auto)
  then have same: "?w1\<lparr>tracks := filter (\<lambda>t. id_of t \<noteq> i) (tracks ?w1)\<rparr> = ?w1"
    by simp
  have step: "deleteMultipleTracks clk w (pre @ [i]) = (Inr (r1\<lparr>failed := failed r1 @ [i]\<rparr>), ?w1)"
    using deleteMultipleTracks_snoc [OF d r1, of i] i same by simp
  have "deleteMultipleTracks clk w (pre @ i # post)
      = deleteMultipleTracks_loop clk w ((pre @ [i]) @ post) \<lparr>success = [], failed = []\<rparr>"
    by (simp add: deleteMultipleTracks_def)
  also have "\<dots> = deleteMultipleTracks_loop clk ?w1 post (r1\<lparr>failed := failed r1 @ [i]\<rparr>)"
    using step unfolding deleteMultipleTracks_def by (simp only: loop_append) simp
  finally show ?thesis using r1 step by blast
qed

text \<open>
  Claim C10. No id occurs twice in \<^verbatim>\<open>success\<close>; the occurrences of every id in
  \<^verbatim>\<open>success\<close> and \<^verbatim>\<open>failed\<close> add up to its occurrences in the input, and so do the
  lengths. When the loop reaches an id that occurred earlier in the input, it appends
  that id to \<^verbatim>\<open>failed\<close>, leaves \<^verbatim>\<open>success\<close> and the store as they were, and goes
  on with the rest of the input.
\<close>

theorem deleteMultipleTracks_repeated_id:
  assumes "distinct (map id_of (tracks w))"
  shows "(\<exists>r w'. deleteMultipleTracks clk w ids = (Inr r, w')
       \<and> distinct (success r)
       \<and> length (success r) + length (failed r) = length ids
       \<and> (\<forall>i. count_list (success r) i + count_list (failed r) i = count_list ids i))
    \<and> (\<forall>pre i post. ids = pre @ i # post \<and> i \<in> set pre \<longrightarrow>
         (\<exists>r1 w1. deleteMultipleTracks clk w pre = (Inr r1, w1)
            \<and> deleteMultipleTracks clk w (pre @ [i]) = (Inr (r1\<lparr>failed := failed r1 @ [i]\<rparr>), w1)
            \<and> deleteMultipleTracks clk w ids
                = deleteMultipleTracks_loop clk w1 post (r1\<lparr>failed := failed r1 @ [i]\<rparr>)))"
proof (intro conjI allI impI)
  from deleteMultipleTracks_counts [OF assms, of clk ids]
  show "\<exists>r w'. deleteMultipleTracks clk w ids = (Inr r, w')
       \<and> distinct (success r)
       \<and> length (success r) + length (failed r) = length ids
       \<and> (\<forall>i. count_list (success r) i + count_list (failed r) i = count_list ids i)"
    by blast
next
  fix pre i post
  assume "ids = pre @ i # post \<and> i \<in> set pre"
  then show "\<exists>r1 w1. deleteMultipleTracks clk w pre = (Inr r1, w1)
            \<and> deleteMultipleTracks clk w (pre @ [i]) = (Inr (r1\<lparr>failed := failed r1 @ [i]\<rparr>), w1)
            \<and> deleteMultipleTracks clk w ids
                = deleteMultipleTracks_loop clk w1 post (r1\<lparr>failed := failed r1 @ [i]\<rparr>)"
    using deleteMultipleTracks_again [OF assms, of i pre clk post] by simp
qed

theorem deleteMultipleTracks_repeated_id_witness:
  "distinct (map id_of (tracks world_ab))
   \<and> deleteMultipleTracks clock_a world_ab [''a'', ''b'', ''a'', ''c'', ''a'']
       = (Inr \<lparr> success = [''a'', ''b''], failed = [''a'', ''c'', ''a''] \<rparr>, world_ab\<lparr>tracks := []\<rparr>)
   \<and> [''a'', ''b'', ''a'', ''c'', ''a''] = [''a'', ''b''] @ ''a'' # [''c'', ''a'']
   \<and> ''a'' \<in> set [''a'', ''b'']
   \<and> (\<exists>r1 w1. deleteMultipleTracks clock_a world_ab [''a'', ''b''] = (Inr r1, w1)
         \<and> deleteMultipleTracks clock_a world_ab ([''a'', ''b''] @ [''a''])
             = (Inr (r1\<lparr>failed := failed r1 @ [''a'']\<rparr>), w1)
         \<and> deleteMultipleTracks clock_a world_ab [''a'', ''b'', ''a'', ''c'', ''a'']
             = deleteMultipleTracks_loop clock_a w1 [''c'', ''a''] (r1\<lparr>failed := failed r1 @ [''a'']\<rparr>))"
proof -
  have d: "distinct (map id_of (tracks world_ab))"
    by (simp add: world_ab_def track_of_def)
  have e: "[''a'', ''b'', ''a'', ''c'', ''a''] = [''a'', ''b''] @ ''a'' # [''c'', ''a''] \<and> ''a'' \<in> set [''a'', ''b'']"
    by simp
  note T = deleteMultipleTracks_repeated_id [OF d, of clock_a "[''a'', ''b'', ''a'', ''c'', ''a'']"]
  from T have "\<forall>pre i post. [''a'', ''b'', ''a'', ''c'', ''a''] = pre @ i # post \<and> i \<in> set pre \<longrightarrow>
         (\<exists>r1 w1. deleteMultipleTracks clock_a world_ab pre = (Inr r1, w1)
            \<and> deleteMultipleTracks clock_a world_ab (pre @ [i]) = (Inr (r1\<lparr>failed := failed r1 @ [i]\<rparr>), w1)
            \<and> deleteMultipleTracks clock_a world_ab [''a'', ''b'', ''a'', ''c'', ''a'']
                = deleteMultipleTracks_loop clock_a w1 post (r1\<lparr>failed := failed r1 @ [i]\<rparr>))"
    by (rule conjunct2)
  then have "[''a'', ''b'', ''a'', ''c'', ''a''] = [''a'', ''b''] @ ''a'' # [''c'', ''a''] \<and> ''a'' \<in> set [''a'', ''b''] \<longrightarrow>
         (\<exists>r1 w1. deleteMultipleTracks clock_a world_ab [''a'', ''b''] = (Inr r1, w1)
            \<and> deleteMultipleTracks clock_a world_ab ([''a'', ''b''] @ [''a'']) = (Inr (r1\<lparr>failed := failed r1 @ [''a'']\<rparr>), w1)
            \<and> deleteMultipleTracks clock_a world_ab [''a'', ''b'', ''a'', ''c'', ''a'']
                = deleteMultipleTracks_loop clock_a w1 [''c'', ''a''] (r1\<lparr>failed := failed r1 @ [''a'']\<rparr>))"
    by blast
  with e have x: "\<exists>r1 w1. deleteMultipleTracks clock_a world_ab [''a'', ''b''] = (Inr r1, w1)
            \<and> deleteMultipleTracks clock_a world_ab ([''a'', ''b''] @ [''a'']) = (Inr (r1\<lparr>failed := failed r1 @ [''a'']\<rparr>), w1)
            \<and> deleteMultipleTracks clock_a world_ab [''a'', ''b'', ''a'', ''c'', ''a'']
                = deleteMultipleTracks_loop clock_a w1 [''c'', ''a''] (r1\<lparr>failed := failed r1 @ [''a'']\<rparr>)"
    by (rule rev_mp)
  have v: "deleteMultipleTracks clock_a world_ab [''a'', ''b'', ''a'', ''c'', ''a'']
       = (Inr \<lparr> success = [''a'', ''b''], failed = [''a'', ''c'', ''a''] \<rparr>, world_ab\<lparr>tracks := []\<rparr>)"
    by (simp add: deleteMultipleTracks_def deleteTrack_def world_ab_def track_of_def)
  from d v e x show ?thesis by (intro conjI) (simp_all only:)
qed

section \<open>Queries: filter, order, page\<close>

lemma created_a_c: "createdAt rock_a \<le> createdAt rock_c" "\<not> createdAt rock_c \<le> createdAt rock_a"
  by (simp_all add: rock_a_def rock_c_def track_of_def)

lemma created_c_b: "createdAt rock_c \<le> createdAt jazz_b" "\<not> createdAt jazz_b \<le> createdAt rock_c"
  by (simp_all add: jazz_b_def rock_c_def track_of_def)

lemma created_a_b: "createdAt rock_a \<le> createdAt jazz_b" "\<not> createdAt jazz_b \<le> createdAt rock_a"
  by (simp_all add: jazz_b_def rock_a_def track_of_def)

lemma sort_world_q_desc:
  "sort_docs P_createdAt (- 1) [rock_a, jazz_b, rock_c] = [jazz_b, rock_c, rock_a]"
  by (simp add: sort_docs_def created_a_c created_c_b created_a_b)

lemma sort_world_q_asc:
  "sort_docs P_createdAt 1 [rock_a, jazz_b, rock_c] = [rock_a, rock_c, jazz_b]"
  by (simp add: sort_docs_def created_a_c created_c_b created_a_b)

lemma build_filter_none: "build_filter R [] None None = Inr \<lparr> f_or = None, f_genres = None, f_artist = None \<rparr>"
  by (simp add: build_filter_def)

lemma matches_none: "matches \<lparr> f_or = None, f_genres = None, f_artist = None \<rparr> t"
  by (simp add: matches_def)

text \<open>
  Claim C5 fails as stated for some queries. With \<^verbatim>\<open>limit: 0\<close> the store applies no
  limit: all three records come back, more than the limit. With \<^verbatim>\<open>page: 0\<close> the skip
  is negative and the store refuses the query, so nothing is returned, no total either.
\<close>

theorem getTracks_limit_zero_counterexample:
  "getTracks no_RegExp world_q (no_params\<lparr>q_limit := Some 0\<rparr>) = Inr ([jazz_b, rock_c, rock_a], 3)
   \<and> getTracks no_RegExp world_q (no_params\<lparr>q_page := Some 0\<rparr>) = Inl BadValue"
  by (simp add: getTracks_def no_params_def set_path_def build_filter_none matches_none
      countDocuments_def find_docs_def world_q_def sort_world_q_desc skip_docs_def limit_docs_def)


lemma getTracks_eq:
  "getTracks RegExp w params =
     (case build_filter RegExp (set_path (q_search params) []) (q_genre params) (q_artist params) of
        Inl e \<Rightarrow> Inl e
      | Inr f \<Rightarrow>
          (case skip_docs ((set_path (q_page params) 1 - 1) * set_path (q_limit params) 10)
                  (sort_docs (set_path (q_sort params) P_createdAt)
                     (if set_path (q_order params) ''desc'' = ''asc'' then 1 else - 1)
                     (filter (matches f) (tracks w))) of
             Inl e \<Rightarrow> Inl e
           | Inr skipped \<Rightarrow>
               Inr (limit_docs (set_path (q_limit params) 10) skipped,
                    length (filter (matches f) (tracks w)))))"
  by (simp add: getTracks_def Let_def countDocuments_def find_docs_def split: sum.splits)

text \<open>
  Claim C5, amended. When a pattern of the query is not a valid regular expression,
  \<^verbatim>\<open>getTracks\<close> fails with that error. Otherwise, for \<^verbatim>\<open>page\<close> and \<^verbatim>\<open>limit\<close> of at
  least 1 (defaults 1 and 10), it returns the records matching the filter, sorted, without
  the first (page - 1) * limit of them and cut after limit of them, together with the
  number of all records matching the filter; and whatever \<^verbatim>\<open>page\<close> and \<^verbatim>\<open>limit\<close>
  are, a total that is returned is that number.
\<close>

theorem getTracks_page_and_total:
  "(case build_filter RegExp (set_path (q_search params) []) (q_genre params) (q_artist params) of
      Inl e \<Rightarrow> getTracks RegExp w params = Inl e
    | Inr f \<Rightarrow>
        (1 \<le> set_path (q_page params) 1 \<and> 1 \<le> set_path (q_limit params) 10 \<longrightarrow>
           getTracks RegExp w params =
             Inr (take (nat (set_path (q_limit params) 10))
                   (drop (nat ((set_path (q_page params) 1 - 1) * set_path (q_limit params) 10))
                     (sort_docs (set_path (q_sort params) P_createdAt)
                        (if set_path (q_order params) ''desc'' = ''asc'' then 1 else - 1)
                        (filter (matches f) (tracks w)))),
                  length (filter (matches f) (tracks w))))
        \<and> (\<forall>p l ts n. getTracks RegExp w (params\<lparr>q_page := p, q_limit := l\<rparr>) = Inr (ts, n) \<longrightarrow>
              n = length (filter (matches f) (tracks w))))"
proof (cases "build_filter RegExp (set_path (q_search params) []) (q_genre params) (q_artist params)")
  case (Inl e)
  then show ?thesis by (simp add: getTracks_eq)
next
  case (Inr f)
  have a: "getTracks RegExp w params =
             Inr (take (nat (set_path (q_limit params) 10))
                   (drop (nat ((set_path (q_page params) 1 - 1) * set_path (q_limit params) 10))
                     (sort_docs (set_path (q_sort params) P_createdAt)
                        (if set_path (q_order params) ''desc'' = ''asc'' then 1 else - 1)
                        (filter (matches f) (tracks w)))),
                  length (filter (matches f) (tracks w)))"
    if p: "1 \<le> set_path (q_page params) 1" and l: "1 \<le> set_path (q_limit params) 10"
  proof -
    from p l have "0 \<le> (set_path (q_page params) 1 - 1) * set_path (q_limit params) 10"
      by (intro mult_nonneg_nonneg) simp_all
    then have "\<not> (set_path (q_page params) 1 - 1) * set_path (q_limit params) 10 < 0" by simp
    moreover from l have "set_path (q_limit params) 10 \<noteq> 0"
      and "\<bar>set_path (q_limit params) 10\<bar> = set_path (q_limit params) 10" by simp_all
    ultimately show ?thesis
      using Inr by (simp add: getTracks_eq skip_docs_def limit_docs_def)
  qed
  have b: "n = length (filter (matches f) (tracks w))"
    if "getTracks RegExp w (params\<lparr>q_page := p, q_limit := l\<rparr>) = Inr (ts, n)" for p l ts n
    using that Inr by (simp add: getTracks_eq split: sum.splits)
  from a b Inr show ?thesis by simp
qed


theorem getTracks_page_and_total_witness:
  "build_filter no_RegExp [] (Some ''Rock'') None
      = Inr \<lparr> f_or = None, f_genres = Some ''Rock'', f_artist = None \<rparr>
   \<and> filter (matches \<lparr> f_or = None, f_genres = Some ''Rock'', f_artist = None \<rparr>) (tracks world_q)
      = [rock_a, rock_c]
   \<and> getTracks no_RegExp world_q (no_params\<lparr>q_genre := Some ''Rock'', q_page := Some 2, q_limit := Some 1\<rparr>)
      = Inr ([rock_a], 2)
   \<and> getTracks no_RegExp world_q (no_params\<lparr>q_genre := Some ''Rock''\<rparr>) = Inr ([rock_c, rock_a], 2)"
proof -
  let ?f = "\<lparr> f_or = None, f_genres = Some ''Rock'', f_artist = None \<rparr>"
  let ?p = "no_params\<lparr>q_genre := Some ''Rock'', q_page := Some 2, q_limit := Some 1\<rparr>"
  let ?q = "no_params\<lparr>q_genre := Some ''Rock''\<rparr>"
  have bf: "build_filter no_RegExp [] (Some ''Rock'') None = Inr ?f"
    by (simp add: build_filter_def)
  have fl: "filter (matches ?f) (tracks world_q) = [rock_a, rock_c]"
    by (simp add: matches_def world_q_def rock_a_def jazz_b_def rock_c_def track_of_def)
  have so: "sort_docs P_createdAt (- 1) [rock_a, rock_c] = [rock_c, rock_a]"
    by (simp add: sort_docs_def created_a_c)
  have bp: "build_filter no_RegExp (set_path (q_search ?p) []) (q_genre ?p) (q_artist ?p) = Inr ?f"
    and bq: "build_filter no_RegExp (set_path (q_search ?q) []) (q_genre ?q) (q_artist ?q) = Inr ?f"
    by (simp_all add: no_params_def set_path_def bf)
  have pp: "1 \<le> set_path (q_page ?p) 1 \<and> 1 \<le> set_path (q_limit ?p) 10"
    and pq: "1 \<le> set_path (q_page ?q) 1 \<and> 1 \<le> set_path (q_limit ?q) 10"
    by (simp_all add: no_params_def set_path_def)
  have "getTracks no_RegExp world_q ?p =
          Inr (take (nat (set_path (q_limit ?p) 10))
                (drop (nat ((set_path (q_page ?p) 1 - 1) * set_path (q_limit ?p) 10))
                  (sort_docs (set_path (q_sort ?p) P_createdAt)
                     (if set_path (q_order ?p) ''desc'' = ''asc'' then 1 else - 1)
                     (filter (matches ?f) (tracks world_q)))),
               length (filter (matches ?f) (tracks world_q)))"
    using getTracks_page_and_total [where RegExp = no_RegExp and w = world_q and params = ?p] pp
    by (simp only: bp sum.case)
  then have p: "getTracks no_RegExp world_q ?p = Inr ([rock_a], 2)"
    by (simp add: fl) (simp add: no_params_def set_path_def so)
  have "getTracks no_RegExp world_q ?q =
          Inr (take (nat (set_path (q_limit ?q) 10))
                (drop (nat ((set_path (q_page ?q) 1 - 1) * set_path (q_limit ?q) 10))
                  (sort_docs (set_path (q_sort ?q) P_createdAt)
                     (if set_path (q_order ?q) ''desc'' = ''asc'' then 1 else - 1)
                     (filter (matches ?f) (tracks world_q)))),
               length (filter (matches ?f) (tracks world_q)))"
    using getTracks_page_and_total [where RegExp = no_RegExp and w = world_q and params = ?q] pq
    by (simp only: bq sum.case)
  then have q: "getTracks no_RegExp world_q ?q = Inr ([rock_c, rock_a], 2)"
    by (simp add: fl) (simp add: no_params_def set_path_def so)
  from bf fl p q show ?thesis by (intro conjI)
qed

text \<open>
  Claim C6. A query whose \<^verbatim>\<open>search\<close> is the empty string has the result of the same
  query without \<^verbatim>\<open>search\<close>: same page, same total, same failure. The empty search
  does not match nothing: with no other parameter the total is the size of the whole
  collection.
\<close>

theorem getTracks_empty_search:
  "getTracks RegExp w (params\<lparr>q_search := Some []\<rparr>) = getTracks RegExp w (params\<lparr>q_search := None\<rparr>)
   \<and> (\<exists>ts. getTracks RegExp w (no_params\<lparr>q_search := Some []\<rparr>) = Inr (ts, length (tracks w)))"
proof -
  have "getTracks RegExp w (params\<lparr>q_search := Some []\<rparr>) = getTracks RegExp w (params\<lparr>q_search := None\<rparr>)"
    by (simp add: getTracks_def set_path_def)
  moreover have "\<exists>ts. getTracks RegExp w (no_params\<lparr>q_search := Some []\<rparr>) = Inr (ts, length (tracks w))"
    by (simp add: getTracks_def Let_def no_params_def set_path_def build_filter_none matches_none
      skip_docs_def countDocuments_def)
  ultimately show ?thesis by (rule conjI)
qed


theorem getTracks_empty_search_witness:
  "getTracks no_RegExp world_q (no_params\<lparr>q_genre := Some ''Rock'', q_search := Some []\<rparr>)
     = Inr ([rock_c, rock_a], 2)
   \<and> getTracks no_RegExp world_q (no_params\<lparr>q_genre := Some ''Rock'', q_search := None\<rparr>)
     = Inr ([rock_c, rock_a], 2)"
proof -
  have fl: "filter (matches \<lparr> f_or = None, f_genres = Some ''Rock'', f_artist = None \<rparr>) (tracks world_q)
      = [rock_a, rock_c]"
    by (simp add: matches_def world_q_def rock_a_def jazz_b_def rock_c_def track_of_def)
  have so: "sort_docs P_createdAt (- 1) [rock_a, rock_c] = [rock_c, rock_a]"
    by (simp add: sort_docs_def created_a_c)
  have "getTracks no_RegExp world_q (no_params\<lparr>q_genre := Some ''Rock'', q_search := None\<rparr>)
     = Inr ([rock_c, rock_a], 2)"
    by (simp add: getTracks_eq no_params_def set_path_def build_filter_def fl so skip_docs_def
        limit_docs_def)
  then show ?thesis
    using getTracks_empty_search [where RegExp = no_RegExp and w = world_q
        and params = "no_params\<lparr>q_genre := Some ''Rock''\<rparr>"]
    by simp
qed

lemma sort_docs_ascending:
  "0 < dir \<Longrightarrow>
   sorted_wrt (\<lambda>a b. sort_key_of dir p a \<le> sort_key_of dir p b) (sort_docs p dir docs)"
  using sorted_sort_key [of "sort_key_of dir p" docs]
  by (simp add: sort_docs_def sorted_map)

lemma sort_docs_descending:
  "\<not> 0 < dir \<Longrightarrow>
   sorted_wrt (\<lambda>a b. sort_key_of dir p b \<le> sort_key_of dir p a) (sort_docs p dir docs)"
  using sorted_sort_key [of "sort_key_of dir p" "rev docs"]
  by (simp add: sort_docs_def sorted_map sorted_wrt_rev)

lemma sorted_wrt_page:
  assumes "sorted_wrt R docs" and "skip_docs s docs = Inr skipped"
  shows "sorted_wrt R (limit_docs l skipped)"
  using assms by (auto simp: skip_docs_def limit_docs_def split: if_splits)

text \<open>
  Claim C9. The tracks \<^verbatim>\<open>getTracks\<close> returns are in ascending order of the sort key
  when \<^verbatim>\<open>order\<close> is exactly the string asc, and in descending order of the sort key for
  every other value of \<^verbatim>\<open>order\<close>, an absent one included.
\<close>

theorem getTracks_order:
  assumes "getTracks RegExp w params = Inr (ts, n)"
  shows "(q_order params = Some ''asc'' \<longrightarrow>
            sorted_wrt (\<lambda>a b. sort_key_of 1 (set_path (q_sort params) P_createdAt) a
                             \<le> sort_key_of 1 (set_path (q_sort params) P_createdAt) b) ts)
       \<and> (q_order params \<noteq> Some ''asc'' \<longrightarrow>
            sorted_wrt (\<lambda>a b. sort_key_of (- 1) (set_path (q_sort params) P_createdAt) b
                             \<le> sort_key_of (- 1) (set_path (q_sort params) P_createdAt) a) ts)"
proof -
  from assms obtain f skipped where
    s: "skip_docs ((set_path (q_page params) 1 - 1) * set_path (q_limit params) 10)
          (sort_docs (set_path (q_sort params) P_createdAt)
             (if set_path (q_order params) ''desc'' = ''asc'' then 1 else - 1)
             (filter (matches f) (tracks w))) = Inr skipped"
    and ts: "ts = limit_docs (set_path (q_limit params) 10) skipped"
    by (auto simp: getTracks_eq split: sum.splits)
  show ?thesis
  proof (cases "q_order params = Some ''asc''")
    case True
    then have "set_path (q_order params) ''desc'' = ''asc''" by (simp add: set_path_def)
    with s have s1: "skip_docs ((set_path (q_page params) 1 - 1) * set_path (q_limit params) 10)
          (sort_docs (set_path (q_sort params) P_createdAt) 1 (filter (matches f) (tracks w)))
        = Inr skipped" by simp
    have "sorted_wrt (\<lambda>a b. sort_key_of 1 (set_path (q_sort params) P_createdAt) a
                           \<le> sort_key_of 1 (set_path (q_sort params) P_createdAt) b)
            (limit_docs (set_path (q_limit params) 10) skipped)"
      by (rule sorted_wrt_page [OF sort_docs_ascending s1]) simp
    with ts True show ?thesis by simp
  next
    case False
    then have "set_path (q_order params) ''desc'' \<noteq> ''asc''"
      by (cases "q_order params") (simp_all add: set_path_def)
    with s have s1: "skip_docs ((set_path (q_page params) 1 - 1) * set_path (q_limit params) 10)
          (sort_docs (set_path (q_sort params) P_createdAt) (- 1) (filter (matches f) (tracks w)))
        = Inr skipped" by simp
    have "sorted_wrt (\<lambda>a b. sort_key_of (- 1) (set_path (q_sort params) P_createdAt) b
                           \<le> sort_key_of (- 1) (set_path (q_sort params) P_createdAt) a)
            (limit_docs (set_path (q_limit params) 10) skipped)"
      by (rule sorted_wrt_page [OF sort_docs_descending s1]) simp
    with ts False show ?thesis by simp
  qed
qed


theorem getTracks_order_witness:
  "getTracks no_RegExp world_q (no_params\<lparr>q_order := Some ''ASC''\<rparr>) = Inr ([jazz_b, rock_c, rock_a], 3)
   \<and> q_order (no_params\<lparr>q_order := Some ''ASC''\<rparr>) \<noteq> Some ''asc''
   \<and> sorted_wrt (\<lambda>a b. sort_key_of (- 1) P_createdAt b \<le> sort_key_of (- 1) P_createdAt a)
        [jazz_b, rock_c, rock_a]
   \<and> getTracks no_RegExp world_q (no_params\<lparr>q_order := Some ''asc''\<rparr>) = Inr ([rock_a, rock_c, jazz_b], 3)
   \<and> sorted_wrt (\<lambda>a b. sort_key_of 1 P_createdAt a \<le> sort_key_of 1 P_createdAt b)
        [rock_a, rock_c, jazz_b]"
proof -
  have d: "getTracks no_RegExp world_q (no_params\<lparr>q_order := Some ''ASC''\<rparr>)
      = Inr ([jazz_b, rock_c, rock_a], 3)"
    by (simp add: getTracks_eq no_params_def set_path_def build_filter_none matches_none
        world_q_def sort_world_q_desc skip_docs_def limit_docs_def)
  have a: "getTracks no_RegExp world_q (no_params\<lparr>q_order := Some ''asc''\<rparr>)
      = Inr ([rock_a, rock_c, jazz_b], 3)"
    by (simp add: getTracks_eq no_params_def set_path_def build_filter_none matches_none
        world_q_def sort_world_q_asc skip_docs_def limit_docs_def)
  show ?thesis
    using d a getTracks_order [OF d] getTracks_order [OF a]
    by (simp add: no_params_def set_path_def)
qed

end
